theory Spec2Isabelle
  imports Main "HOL-Library.AList" "HOL-Library.Sublist"
begin

section \<open>Python values carried by source records\<close>

text \<open>
  A raw record is what the upstream connector decodes from JSON: a Python \<open>dict\<close> from
  strings to values. Python dictionaries keep insertion order and assignment to an
  existing key keeps its position, which is what \<open>AList.update\<close> does on an association
  list; \<open>map_of\<close> is the lookup. Non-integer numbers are left out of the value type.
\<close>

datatype pyval =
    PNone
  | PBool bool
  | PInt int
  | PStr string
  | PList "pyval list"
  | PDict "(string \<times> pyval) list"

type_synonym pyrec = "(string \<times> pyval) list"

text \<open>The exceptions (all subclasses of Python's \<open>Exception\<close>) that the modelled code meets.\<close>

datatype py_exception = TypeError | KeyError | OtherException string

subsection \<open>Rendering values: \<open>str\<close> and \<open>repr\<close>\<close>

definition digit_char :: "nat \<Rightarrow> char" where
  "digit_char d = ''0123456789'' ! d"

fun digits :: "nat \<Rightarrow> string" where
  "digits n = (if n < 10 then [digit_char n] else digits (n div 10) @ [digit_char (n mod 10)])"

declare digits.simps [simp del]

definition str_int :: "int \<Rightarrow> string" where
  "str_int i = (if i < 0 then CHR ''-'' # digits (nat (- i)) else digits (nat i))"

definition hex_char :: "nat \<Rightarrow> char" where
  "hex_char d = ''0123456789abcdef'' ! d"

text \<open>
  \<open>repr\<close> of a string: single quotes unless the string holds a single quote and no double
  quote; the quote character and the backslash are escaped, tab, newline and carriage
  return get their letter escapes, and every other non-printable character becomes
  \<open>\xNN\<close>. Characters are the code points below 256.
\<close>

definition printable :: "char \<Rightarrow> bool" where
  "printable c = (let n = (of_char c :: nat) in
     (32 \<le> n \<and> n < 127) \<or> (161 \<le> n \<and> n \<noteq> 173))"

definition repr_quote :: "string \<Rightarrow> char" where
  "repr_quote s = (if CHR 0x27 \<in> set s \<and> CHR 0x22 \<notin> set s then CHR 0x22 else CHR 0x27)"

definition repr_char :: "char \<Rightarrow> char \<Rightarrow> string" where
  "repr_char q c =
     (if c = q \<or> c = CHR 0x5C then [CHR 0x5C, c]
      else if c = CHR 0x09 then [CHR 0x5C, CHR ''t'']
      else if c = CHR 0x0A then [CHR 0x5C, CHR ''n'']
      else if c = CHR 0x0D then [CHR 0x5C, CHR ''r'']
      else if printable c then [c]
      else [CHR 0x5C, CHR ''x'', hex_char (of_char c div 16), hex_char (of_char c mod 16)])"

definition repr_str :: "string \<Rightarrow> string" where
  "repr_str s = (let q = repr_quote s in q # concat (map (repr_char q) s) @ [q])"

fun join :: "string \<Rightarrow> string list \<Rightarrow> string" where
  "join sep [] = []"
| "join sep [x] = x"
| "join sep (x # y # ys) = x @ sep @ join sep (y # ys)"

fun py_repr :: "pyval \<Rightarrow> string" where
  "py_repr PNone = ''None''"
| "py_repr (PBool b) = (if b then ''True'' else ''False'')"
| "py_repr (PInt i) = str_int i"
| "py_repr (PStr s) = repr_str s"
| "py_repr (PList xs) = ''['' @ join '', '' (map py_repr xs) @ '']''"
| "py_repr (PDict kvs) =
     ''{'' @ join '', '' (map (\<lambda>kv. repr_str (fst kv) @ '': '' @ py_repr (snd kv)) kvs) @ ''}''"

text \<open>An f-string field \<open>{v}\<close> is \<open>format(v, '')\<close>, which is \<open>str(v)\<close> for these types.\<close>

fun py_str :: "pyval \<Rightarrow> string" where
  "py_str (PStr s) = s"
| "py_str v = py_repr v"

subsection \<open>Dictionary access and iteration\<close>

definition dict_get :: "pyrec \<Rightarrow> string \<Rightarrow> pyval \<Rightarrow> pyval" where
  "dict_get d k dflt = (case map_of d k of None \<Rightarrow> dflt | Some v \<Rightarrow> v)"

definition dict_set :: "string \<Rightarrow> pyval \<Rightarrow> pyrec \<Rightarrow> pyrec" where
  "dict_set k v d = AList.update k v d"

definition dict_item :: "pyrec \<Rightarrow> string \<Rightarrow> py_exception + pyval" where
  "dict_item d k = (case map_of d k of None \<Rightarrow> Inl KeyError | Some v \<Rightarrow> Inr v)"

text \<open>
  \<open>enumerate(v)\<close> iterates \<open>v\<close>: a list yields its elements, a string its characters, a
  dictionary its keys; \<open>None\<close>, booleans and integers are not iterable.
\<close>

fun py_iter :: "pyval \<Rightarrow> py_exception + pyval list" where
  "py_iter (PList xs) = Inr xs"
| "py_iter (PStr s) = Inr (map (\<lambda>c. PStr [c]) s)"
| "py_iter (PDict kvs) = Inr (map (\<lambda>kv. PStr (fst kv)) kvs)"
| "py_iter v = Inl TypeError"

section \<open>Document Normalizer (\<open>stream.py\<close>)\<close>

abbreviation NL :: string where
  "NL \<equiv> [CHR 0x0A]"

text \<open>The loop \<open>for i, tx in enumerate(...): text += f"  {i+1}. {tx}\n"\<close>, from index \<open>i\<close>.\<close>

fun tx_lines :: "nat \<Rightarrow> pyval list \<Rightarrow> string" where
  "tx_lines i [] = []"
| "tx_lines i (tx # txs) =
     ''  '' @ py_str (PInt (int i + 1)) @ ''. '' @ py_str tx @ NL @ tx_lines (Suc i) txs"

definition block_header :: "pyrec \<Rightarrow> string" where
  "block_header block =
     ''Block at ['' @ py_str (dict_get block ''X'' (PStr ''?'')) @ '', ''
        @ py_str (dict_get block ''Y'' (PStr ''?'')) @ '']'' @ NL
     @ ''Hash: '' @ py_str (dict_get block ''Hash'' (PStr ''?'')) @ NL
     @ ''Previous Hashes: X='' @ py_str (dict_get block ''PrevHashX'' (PStr ''?''))
        @ '', Y='' @ py_str (dict_get block ''PrevHashY'' (PStr ''?'')) @ NL
     @ ''Context: '' @ py_str (dict_get block ''Context'' (PStr ''?'')) @ NL
     @ ''Timestamp: '' @ py_str (dict_get block ''Timestamp'' (PStr ''?'')) @ NL
     @ ''Transactions:'' @ NL"

definition block_id :: "pyrec \<Rightarrow> string" where
  "block_id block =
     ''block_'' @ py_str (dict_get block ''X'' (PInt 0)) @ ''_''
       @ py_str (dict_get block ''Y'' (PInt 0))"

text \<open>
  \<open>_process_block\<close> up to the \<open>queue.put\<close>: the record is updated in place with
  \<open>_document_type\<close>, \<open>_text\<close> and \<open>_id\<close>, in the source's order; iterating a \<open>Data\<close>
  value that is not iterable raises.
\<close>

definition normalize_block :: "pyrec \<Rightarrow> py_exception + pyrec" where
  "normalize_block block0 =
     (let block1 = dict_set ''_document_type'' (PStr ''block'') block0 in
      case py_iter (dict_get block1 ''Data'' (PList [])) of
        Inl e \<Rightarrow> Inl e
      | Inr txs \<Rightarrow>
          (let text = block_header block1 @ tx_lines 0 txs;
               block2 = dict_set ''_text'' (PStr text) block1;
               block3 = dict_set ''_id'' (PStr (block_id block2)) block2
           in Inr block3))"

definition tx_text :: "pyrec \<Rightarrow> string" where
  "tx_text tx =
     ''Transaction '' @ py_str (dict_get tx ''ID'' (PStr ''?'')) @ NL
     @ ''Data: '' @ py_str (dict_get tx ''Data'' (PStr ''?'')) @ NL"

definition tx_id :: "pyrec \<Rightarrow> string" where
  "tx_id tx = ''tx_'' @ py_str (dict_get tx ''ID'' (PStr ''''))"

definition normalize_transaction :: "pyrec \<Rightarrow> py_exception + pyrec" where
  "normalize_transaction tx0 =
     (let tx1 = dict_set ''_document_type'' (PStr ''transaction'') tx0;
          tx2 = dict_set ''_text'' (PStr (tx_text tx1)) tx1;
          tx3 = dict_set ''_id'' (PStr (tx_id tx2)) tx2
      in Inr tx3)"

section \<open>Query-side projection of a queued row (\<open>rag.py\<close>, \<open>build_pipeline\<close>)\<close>

text \<open>
  \<open>input_table.select(id=pw.this["_id"], document_type=pw.this["_document_type"],
  text=pw.this["_text"], metadata=pw.this)\<close>: three columns are read from the row and the
  metadata column is the row itself.
\<close>

record document =
  doc_id :: pyval
  document_type :: pyval
  doc_text :: pyval
  metadata :: pyrec

definition processed_data :: "pyrec \<Rightarrow> py_exception + document" where
  "processed_data row =
     (case dict_item row ''_id'' of Inl e \<Rightarrow> Inl e | Inr i \<Rightarrow>
      case dict_item row ''_document_type'' of Inl e \<Rightarrow> Inl e | Inr k \<Rightarrow>
      case dict_item row ''_text'' of Inl e \<Rightarrow> Inl e | Inr t \<Rightarrow>
        Inr \<lparr>doc_id = i, document_type = k, doc_text = t, metadata = row\<rparr>)"

text \<open>The document the pipeline derives from one raw record: normalise, then select.\<close>

definition block_document :: "pyrec \<Rightarrow> py_exception + document" where
  "block_document block =
     (case normalize_block block of Inl e \<Rightarrow> Inl e | Inr row \<Rightarrow> processed_data row)"

definition transaction_document :: "pyrec \<Rightarrow> py_exception + document" where
  "transaction_document tx =
     (case normalize_transaction tx of Inl e \<Rightarrow> Inl e | Inr row \<Rightarrow> processed_data row)"

section \<open>Embedding Engine (\<open>embeddings.py\<close>)\<close>

text \<open>
  The sentence-transformer model is a library object: its \<open>encode\<close> on one text, its
  \<open>encode\<close> on a list of texts and its \<open>get_sentence_embedding_dimension()\<close> are
  parameters. The component type of a vector is left abstract; \<open>0.0\<close> is its zero.
\<close>

record 'f sentence_transformer =
  encode :: "string \<Rightarrow> py_exception + 'f list"
  encode_batch :: "string list \<Rightarrow> py_exception + 'f list list"
  get_sentence_embedding_dimension :: nat

definition embed_text :: "('f::zero) sentence_transformer \<Rightarrow> string \<Rightarrow> py_exception + 'f list" where
  "embed_text model txt =
     (case encode model txt of
        Inr embedding \<Rightarrow> Inr embedding
      | Inl e \<Rightarrow> Inr (replicate (get_sentence_embedding_dimension model) 0))"

definition embed_batch ::
  "('f::zero) sentence_transformer \<Rightarrow> string list \<Rightarrow> py_exception + 'f list list" where
  "embed_batch model texts =
     (case encode_batch model texts of
        Inr embeddings \<Rightarrow> Inr embeddings
      | Inl e \<Rightarrow>
          Inr (replicate (length texts) (replicate (get_sentence_embedding_dimension model) 0)))"

section \<open>Ingestion queue and Stream Supervisor (\<open>stream.py\<close>)\<close>

subsection \<open>The unbounded FIFO queue\<close>

definition queue_put :: "'a \<Rightarrow> 'a list \<Rightarrow> 'a list" where
  "queue_put x q = q @ [x]"

text \<open>\<open>queue.get()\<close> on an empty queue suspends the caller: \<open>None\<close>.\<close>

definition queue_get :: "'a list \<Rightarrow> ('a \<times> 'a list) option" where
  "queue_get q = (case q of [] \<Rightarrow> None | x # q' \<Rightarrow> Some (x, q'))"

subsection \<open>Supervisor state and observable events\<close>

datatype event =
    Enqueued pyrec
  | LogError py_exception
  | LogInfo nat nat
  | Subscribed
  | Slept nat
  | TaskCreated
  | LoopExited

record stream_state =
  queue :: "pyrec list"
  stop_event :: bool
  trace :: "event list"

definition init_state :: stream_state where
  "init_state = \<lparr>queue = [], stop_event = False, trace = []\<rparr>"

definition emit :: "event \<Rightarrow> stream_state \<Rightarrow> stream_state" where
  "emit ev st = st\<lparr>trace := trace st @ [ev]\<rparr>"

definition put :: "pyrec \<Rightarrow> stream_state \<Rightarrow> stream_state" where
  "put doc st = emit (Enqueued doc) (st\<lparr>queue := queue_put doc (queue st)\<rparr>)"

text \<open>
  A procedure that returns nothing yields \<open>None\<close> when it returns and \<open>Some e\<close> when it
  raises \<open>e\<close>, together with the state at that point. Item assignment on a value that is
  not a dictionary raises \<open>TypeError\<close>.
\<close>

type_synonym proc = "stream_state \<Rightarrow> py_exception option \<times> stream_state"

fun process_block :: "pyval \<Rightarrow> proc" where
  "process_block (PDict block) st =
     (case normalize_block block of
        Inl e \<Rightarrow> (Some e, st)
      | Inr doc \<Rightarrow> (None, put doc st))"
| "process_block v st = (Some TypeError, st)"

fun process_transaction :: "pyval \<Rightarrow> proc" where
  "process_transaction (PDict tx) st =
     (case normalize_transaction tx of
        Inl e \<Rightarrow> (Some e, st)
      | Inr doc \<Rightarrow> (None, put doc st))"
| "process_transaction v st = (Some TypeError, st)"

text \<open>A \<open>for\<close> loop over a list: the first exception ends it.\<close>

fun for_each :: "('a \<Rightarrow> proc) \<Rightarrow> 'a list \<Rightarrow> proc" where
  "for_each f [] st = (None, st)"
| "for_each f (x # xs) st =
     (case f x st of
        (Some e, st') \<Rightarrow> (Some e, st')
      | (None, st') \<Rightarrow> for_each f xs st')"

subsection \<open>Initial load and \<open>start\<close>\<close>

text \<open>The upstream connector's snapshot reads, as the results of the two awaited calls.\<close>

record connector =
  get_blocks :: "py_exception + pyval list"
  get_transactions :: "py_exception + pyval list"

text \<open>The body of the \<open>try\<close> in \<open>_load_initial_state\<close>.\<close>

definition load_body :: "connector \<Rightarrow> proc" where
  "load_body conn st =
     (case get_blocks conn of
        Inl e \<Rightarrow> (Some e, st)
      | Inr blocks \<Rightarrow>
          (case for_each process_block blocks st of
             (Some e, st1) \<Rightarrow> (Some e, st1)
           | (None, st1) \<Rightarrow>
               (case get_transactions conn of
                  Inl e \<Rightarrow> (Some e, st1)
                | Inr txs \<Rightarrow>
                    (case for_each process_transaction txs st1 of
                       (Some e, st2) \<Rightarrow> (Some e, st2)
                     | (None, st2) \<Rightarrow>
                         (None, emit (LogInfo (length blocks) (length txs)) st2)))))"

definition load_initial_state :: "connector \<Rightarrow> proc" where
  "load_initial_state conn st =
     (case load_body conn st of
        (Some e, st') \<Rightarrow> (None, emit (LogError e) st')
      | (None, st') \<Rightarrow> (None, st'))"

definition start :: "connector \<Rightarrow> proc" where
  "start conn st =
     (case load_initial_state conn st of
        (Some e, st') \<Rightarrow> (Some e, st')
      | (None, st') \<Rightarrow> (None, emit TaskCreated st'))"

subsection \<open>The live-update loop\<close>

text \<open>
  One call of \<open>connector.stream_updates()\<close>: the updates it yields, how the iteration
  ends (the iterator is exhausted, or it raises), and whether \<open>stop()\<close> was called before
  the loop next tests the stop event.
\<close>

datatype sub_end = Ended | Raised py_exception

record attempt =
  updates :: "pyval list"
  outcome :: sub_end
  stop_requested :: bool

fun py_getitem :: "pyval \<Rightarrow> string \<Rightarrow> py_exception + pyval" where
  "py_getitem (PDict d) k = dict_item d k"
| "py_getitem v k = Inl TypeError"

definition handle_update :: "pyval \<Rightarrow> proc" where
  "handle_update update st =
     (case py_getitem update ''type'' of
        Inl e \<Rightarrow> (Some e, st)
      | Inr t \<Rightarrow>
          if t = PStr ''newBlock'' then
            (case py_getitem update ''data'' of
               Inl e \<Rightarrow> (Some e, st)
             | Inr d \<Rightarrow> process_block d st)
          else if t = PStr ''newTransaction'' then
            (case py_getitem update ''data'' of
               Inl e \<Rightarrow> (Some e, st)
             | Inr d \<Rightarrow> process_transaction d st)
          else (None, st))"

text \<open>One pass of the \<open>try\<close>/\<open>except\<close> inside the \<open>while\<close> of \<open>_stream_updates\<close>.\<close>

definition attempt_once :: "attempt \<Rightarrow> stream_state \<Rightarrow> stream_state" where
  "attempt_once a st =
     (let (r, st1) = for_each handle_update (updates a) (emit Subscribed st);
          raised = (case r of Some e \<Rightarrow> Some e
                    | None \<Rightarrow> (case outcome a of Raised e \<Rightarrow> Some e | Ended \<Rightarrow> None));
          st2 = (case raised of
                   Some e \<Rightarrow> emit (Slept 5) (emit (LogError e) st1)
                 | None \<Rightarrow> st1)
      in st2\<lparr>stop_event := stop_event st2 \<or> stop_requested a\<rparr>)"

text \<open>
  The \<open>while not self._stop_event.is_set()\<close> loop, run against the subscription attempts
  the environment offers; it may run forever, so the list bounds the observation.
\<close>

fun stream_updates :: "attempt list \<Rightarrow> stream_state \<Rightarrow> stream_state" where
  "stream_updates [] st = (if stop_event st then emit LoopExited st else st)"
| "stream_updates (a # as) st =
     (if stop_event st then emit LoopExited st
      else stream_updates as (attempt_once a st))"

text \<open>
  \<open>start\<close> followed by the run of the task it created: the task is created only after
  \<open>_load_initial_state\<close> has been awaited.
\<close>

definition start_then_stream :: "connector \<Rightarrow> attempt list \<Rightarrow> stream_state \<Rightarrow> stream_state" where
  "start_then_stream conn atts st =
     (case start conn st of
        (Some e, st') \<Rightarrow> st'
      | (None, st') \<Rightarrow> stream_updates atts st')"

text \<open>The rows that a snapshot item puts on the queue when its normalization succeeds.\<close>

definition dict_of :: "pyval \<Rightarrow> pyrec" where
  "dict_of v = (case v of PDict d \<Rightarrow> d | _ \<Rightarrow> [])"

definition block_row :: "pyval \<Rightarrow> pyrec" where
  "block_row v = (case normalize_block (dict_of v) of Inr row \<Rightarrow> row | Inl e \<Rightarrow> [])"

definition transaction_row :: "pyval \<Rightarrow> pyrec" where
  "transaction_row v = (case normalize_transaction (dict_of v) of Inr row \<Rightarrow> row | Inl e \<Rightarrow> [])"

text \<open>
  Two helpers for stating what a run adds: \<open>fresh\<close> empties the queue and the trace of a
  state, and \<open>rebase q tr\<close> puts \<open>q\<close> and \<open>tr\<close> in front of its queue and trace.
\<close>

definition fresh :: "stream_state \<Rightarrow> stream_state" where
  "fresh st = st\<lparr>queue := [], trace := []\<rparr>"

definition rebase :: "pyrec list \<Rightarrow> event list \<Rightarrow> stream_state \<Rightarrow> stream_state" where
  "rebase q tr st = st\<lparr>queue := q @ queue st, trace := tr @ trace st\<rparr>"



subsection \<open>The consumer and the interleaving of producers\<close>

text \<open>
  \<open>pathway_connector\<close> runs \<open>item = await queue.get(); context.add_data(item)\<close> forever.
  The tasks interleave at their awaits; a schedule lists, in order, each \<open>queue.put\<close> of
  a producer and each pass of the consumer loop. Queue entries carry the producer that
  put them, which the code does not store, so that the per-producer order can be read
  off.
\<close>

datatype source = InitialLoad | LiveUpdates

datatype action = PutBy source pyrec | ConsumerPass

record pipeline =
  pending :: "(source \<times> pyrec) list"
  added :: "(source \<times> pyrec) list"

definition pipeline_step :: "pipeline \<Rightarrow> action \<Rightarrow> pipeline" where
  "pipeline_step p a =
     (case a of
        PutBy s doc \<Rightarrow> p\<lparr>pending := queue_put (s, doc) (pending p)\<rparr>
      | ConsumerPass \<Rightarrow>
          (case queue_get (pending p) of
             None \<Rightarrow> p
           | Some (item, q') \<Rightarrow> p\<lparr>pending := q', added := added p @ [item]\<rparr>))"

definition run_schedule :: "action list \<Rightarrow> pipeline" where
  "run_schedule sched = foldl pipeline_step \<lparr>pending = [], added = []\<rparr> sched"

definition puts_of :: "source \<Rightarrow> action list \<Rightarrow> pyrec list" where
  "puts_of s sched = concat (map (\<lambda>a. case a of PutBy s' doc \<Rightarrow> if s' = s then [doc] else []
                                       | ConsumerPass \<Rightarrow> []) sched)"

definition docs_of :: "source \<Rightarrow> (source \<times> pyrec) list \<Rightarrow> pyrec list" where
  "docs_of s items = map snd (filter (\<lambda>item. fst item = s) items)"

section \<open>The placeholder layout stated by the specification\<close>

text \<open>
  The specification's wording of the text layout, for comparison with \<open>block_header\<close> and
  \<open>tx_text\<close>: a field that is missing from the record is written as the token \<open>?\<close>.
\<close>

definition field_or_placeholder :: "pyrec \<Rightarrow> string \<Rightarrow> string" where
  "field_or_placeholder r k = (case map_of r k of None \<Rightarrow> ''?'' | Some v \<Rightarrow> py_str v)"

definition placeholder_block_header :: "pyrec \<Rightarrow> string" where
  "placeholder_block_header b =
     ''Block at ['' @ field_or_placeholder b ''X'' @ '', '' @ field_or_placeholder b ''Y'' @ '']'' @ NL
     @ ''Hash: '' @ field_or_placeholder b ''Hash'' @ NL
     @ ''Previous Hashes: X='' @ field_or_placeholder b ''PrevHashX''
        @ '', Y='' @ field_or_placeholder b ''PrevHashY'' @ NL
     @ ''Context: '' @ field_or_placeholder b ''Context'' @ NL
     @ ''Timestamp: '' @ field_or_placeholder b ''Timestamp'' @ NL
     @ ''Transactions:'' @ NL"

definition placeholder_tx_text :: "pyrec \<Rightarrow> string" where
  "placeholder_tx_text t =
     ''Transaction '' @ field_or_placeholder t ''ID'' @ NL
     @ ''Data: '' @ field_or_placeholder t ''Data'' @ NL"


section \<open>Properties of the rendering and of dictionary updates\<close>

lemma digit_char_less: "d < 10 \<Longrightarrow> digit_char d \<in> set ''0123456789''"
  unfolding digit_char_def by (rule nth_mem) simp

lemma digit_char_inj: "d < 10 \<Longrightarrow> e < 10 \<Longrightarrow> digit_char d = digit_char e \<Longrightarrow> d = e"
proof -
  assume a: "d < 10" "e < 10" "digit_char d = digit_char e"
  have "distinct ''0123456789''" by simp
  moreover have "d < length ''0123456789''" "e < length ''0123456789''" using a by simp_all
  ultimately show "d = e" using a(3) unfolding digit_char_def
    by (simp only: nth_eq_iff_index_eq)
qed

lemma digits_chars: "set (digits n) \<subseteq> set ''0123456789''"
proof (induction n rule: digits.induct)
  case (1 n)
  show ?case
  proof (cases "n < 10")
    case True
    then show ?thesis using digit_char_less [of n] by (subst digits.simps) simp
  next
    case False
    have "n mod 10 < 10" by simp
    then have "digit_char (n mod 10) \<in> set ''0123456789''" by (rule digit_char_less)
    with 1 False show ?thesis by (subst digits.simps) simp
  qed
qed

lemma digits_length: "10 \<le> n \<Longrightarrow> 2 \<le> length (digits n)"
proof -
  assume "10 \<le> n"
  then have "digits n = digits (n div 10) @ [digit_char (n mod 10)]"
    by (subst digits.simps) simp
  moreover have "digits (n div 10) \<noteq> []" by (subst digits.simps) simp
  ultimately show ?thesis by (cases "digits (n div 10)") simp_all
qed

lemma digits_inj: "digits m = digits n \<Longrightarrow> m = n"
proof (induction m arbitrary: n rule: digits.induct)
  case (1 m)
  show ?case
  proof (cases "m < 10")
    case small: True
    then have dm: "digits m = [digit_char m]" by (subst digits.simps) simp
    show ?thesis
    proof (cases "n < 10")
      case True
      then have "digits n = [digit_char n]" by (subst digits.simps) simp
      with dm "1.prems" small True show ?thesis by (simp add: digit_char_inj)
    next
      case False
      then have "2 \<le> length (digits n)" by (simp add: digits_length)
      with dm "1.prems" show ?thesis by simp
    qed
  next
    case big: False
    then have dm: "digits m = digits (m div 10) @ [digit_char (m mod 10)]"
      by (subst digits.simps) simp
    show ?thesis
    proof (cases "n < 10")
      case True
      then have "digits n = [digit_char n]" by (subst digits.simps) simp
      moreover from big have "2 \<le> length (digits m)" by (simp add: digits_length)
      ultimately show ?thesis using "1.prems" by simp
    next
      case False
      then have dn: "digits n = digits (n div 10) @ [digit_char (n mod 10)]"
        by (subst digits.simps) simp
      from dm dn "1.prems" have q: "digits (m div 10) = digits (n div 10)"
        and r: "digit_char (m mod 10) = digit_char (n mod 10)" by simp_all
      from "1.IH" [OF big q] have "m div 10 = n div 10" .
      moreover from r have "m mod 10 = n mod 10" by (simp add: digit_char_inj)
      ultimately show ?thesis by (metis div_mult_mod_eq)
    qed
  qed
qed

lemma digits_nonempty: "digits n \<noteq> []"
  by (subst digits.simps) simp

lemma str_int_inj: "str_int a = str_int b \<Longrightarrow> a = b"
proof -
  assume eq: "str_int a = str_int b"
  have nodash: "\<And>n. hd (digits n) \<noteq> CHR ''-''"
  proof -
    fix n
    have "hd (digits n) \<in> set (digits n)" by (simp add: digits_nonempty)
    then have "hd (digits n) \<in> set ''0123456789''" using digits_chars by blast
    then show "hd (digits n) \<noteq> CHR ''-''" by auto
  qed
  show "a = b"
  proof (cases "a < 0")
    case an: True
    show ?thesis
    proof (cases "b < 0")
      case True
      with an eq have "digits (nat (- a)) = digits (nat (- b))" by (simp add: str_int_def)
      then have "nat (- a) = nat (- b)" by (rule digits_inj)
      with an True show ?thesis by simp
    next
      case False
      with an eq have "CHR ''-'' # digits (nat (- a)) = digits (nat b)" by (simp add: str_int_def)
      then have "hd (digits (nat b)) = CHR ''-''" by (metis list.sel(1))
      with nodash show ?thesis by blast
    qed
  next
    case ap: False
    show ?thesis
    proof (cases "b < 0")
      case True
      with ap eq have "digits (nat a) = CHR ''-'' # digits (nat (- b))" by (simp add: str_int_def)
      then have "hd (digits (nat a)) = CHR ''-''" by (metis list.sel(1))
      with nodash show ?thesis by blast
    next
      case False
      with ap eq have "digits (nat a) = digits (nat b)" by (simp add: str_int_def)
      then have "nat a = nat b" by (rule digits_inj)
      with ap False show ?thesis by simp
    qed
  qed
qed

lemma str_int_no_underscore: "CHR ''_'' \<notin> set (str_int a)"
proof -
  have "\<And>n. CHR ''_'' \<notin> set (digits n)"
  proof
    fix n assume "CHR ''_'' \<in> set (digits n)"
    then have "CHR ''_'' \<in> set ''0123456789''" using digits_chars by blast
    then show False by simp
  qed
  then show ?thesis by (simp add: str_int_def)
qed

lemma split_at_sep:
  "c \<notin> set a \<Longrightarrow> c \<notin> set a' \<Longrightarrow> a @ c # b = a' @ c # b' \<Longrightarrow> a = a' \<and> b = b'"
proof (induction a arbitrary: a')
  case Nil
  then show ?case by (cases a') auto
next
  case (Cons x xs)
  then show ?case by (cases a') auto
qed



lemma map_of_dict_set: "map_of (dict_set k v d) k' = (if k' = k then Some v else map_of d k')"
  by (simp add: dict_set_def update_conv')

lemma dict_get_dict_set:
  "dict_get (dict_set k v d) k' dflt = (if k' = k then v else dict_get d k' dflt)"
  by (simp add: dict_get_def map_of_dict_set)

lemma dict_get_dict_set_other:
  "k \<noteq> k' \<Longrightarrow> dict_get (dict_set k v d) k' dflt = dict_get d k' dflt"
  by (simp add: dict_get_dict_set)

lemma dict_set_present: "map_of d k = Some v \<Longrightarrow> dict_set k v d = d"
  by (simp add: dict_set_def update_triv)

lemma block_header_dict_set:
  "k \<notin> {''X'', ''Y'', ''Hash'', ''PrevHashX'', ''PrevHashY'', ''Context'', ''Timestamp''}
   \<Longrightarrow> block_header (dict_set k v d) = block_header d"
  by (simp add: block_header_def dict_get_dict_set_other)

lemma block_id_dict_set:
  "k \<notin> {''X'', ''Y''} \<Longrightarrow> block_id (dict_set k v d) = block_id d"
  by (simp add: block_id_def dict_get_dict_set_other)

lemma tx_text_dict_set:
  "k \<notin> {''ID'', ''Data''} \<Longrightarrow> tx_text (dict_set k v d) = tx_text d"
  by (simp add: tx_text_def dict_get_dict_set_other)

lemma tx_id_dict_set:
  "k \<noteq> ''ID'' \<Longrightarrow> tx_id (dict_set k v d) = tx_id d"
  by (simp add: tx_id_def dict_get_dict_set_other)

lemma normalize_block_eq:
  "normalize_block b =
     (case py_iter (dict_get b ''Data'' (PList [])) of
        Inl e \<Rightarrow> Inl e
      | Inr txs \<Rightarrow>
          Inr (dict_set ''_id'' (PStr (block_id b))
                (dict_set ''_text'' (PStr (block_header b @ tx_lines 0 txs))
                  (dict_set ''_document_type'' (PStr ''block'') b))))"
  by (simp add: normalize_block_def Let_def dict_get_dict_set block_header_dict_set
        block_id_dict_set split: sum.splits)

lemma normalize_transaction_eq:
  "normalize_transaction t =
     Inr (dict_set ''_id'' (PStr (tx_id t))
           (dict_set ''_text'' (PStr (tx_text t))
             (dict_set ''_document_type'' (PStr ''transaction'') t)))"
  by (simp add: normalize_transaction_def Let_def tx_text_dict_set tx_id_dict_set)

lemma block_document_eq:
  "normalize_block b = Inr row \<Longrightarrow>
   block_document b = Inr \<lparr>doc_id = PStr (block_id b), document_type = PStr ''block'',
      doc_text = PStr (block_header b @ tx_lines 0 (projr (py_iter (dict_get b ''Data'' (PList []))))),
      metadata = row\<rparr>"
  by (auto simp: block_document_def normalize_block_eq processed_data_def dict_item_def
        map_of_dict_set split: sum.splits)

lemma transaction_document_eq:
  "transaction_document t = Inr \<lparr>doc_id = PStr (tx_id t), document_type = PStr ''transaction'',
      doc_text = PStr (tx_text t),
      metadata = projr (normalize_transaction t)\<rparr>"
  by (simp add: transaction_document_def normalize_transaction_eq processed_data_def dict_item_def
        map_of_dict_set)

lemma py_str_dict_get_placeholder:
  "py_str (dict_get r k (PStr ''?'')) = field_or_placeholder r k"
  by (simp add: dict_get_def field_or_placeholder_def split: option.splits)

lemma block_header_placeholder: "block_header b = placeholder_block_header b"
  by (simp add: block_header_def placeholder_block_header_def py_str_dict_get_placeholder)

lemma tx_text_placeholder: "tx_text t = placeholder_tx_text t"
  by (simp add: tx_text_def placeholder_tx_text_def py_str_dict_get_placeholder)

lemma normalize_block_fixed:
  assumes "normalize_block b = Inr b'"
  shows "normalize_block b' = Inr b'"
proof -
  from assms obtain txs where it: "py_iter (dict_get b ''Data'' (PList [])) = Inr txs"
    and b': "b' = dict_set ''_id'' (PStr (block_id b))
                (dict_set ''_text'' (PStr (block_header b @ tx_lines 0 txs))
                  (dict_set ''_document_type'' (PStr ''block'') b))"
    by (auto simp: normalize_block_eq split: sum.splits)
  have data: "dict_get b' ''Data'' (PList []) = dict_get b ''Data'' (PList [])"
    by (simp add: b' dict_get_dict_set)
  have hdr: "block_header b' = block_header b"
    by (simp add: b' block_header_dict_set)
  have ident: "block_id b' = block_id b"
    by (simp add: b' block_id_dict_set)
  have k1: "dict_set ''_document_type'' (PStr ''block'') b' = b'"
    by (rule dict_set_present) (simp add: b' map_of_dict_set)
  have k2: "dict_set ''_text'' (PStr (block_header b @ tx_lines 0 txs)) b' = b'"
    by (rule dict_set_present) (simp add: b' map_of_dict_set)
  have k3: "dict_set ''_id'' (PStr (block_id b)) b' = b'"
    by (rule dict_set_present) (simp add: b' map_of_dict_set)
  show ?thesis
    by (simp add: normalize_block_eq [of b'] data it hdr ident k1 k2 k3)
qed

lemma normalize_transaction_fixed:
  assumes "normalize_transaction t = Inr t'"
  shows "normalize_transaction t' = Inr t'"
proof -
  from assms have t': "t' = dict_set ''_id'' (PStr (tx_id t))
           (dict_set ''_text'' (PStr (tx_text t))
             (dict_set ''_document_type'' (PStr ''transaction'') t))"
    by (simp add: normalize_transaction_eq)
  have same_text: "tx_text t' = tx_text t" by (simp add: t' tx_text_dict_set)
  have ident: "tx_id t' = tx_id t" by (simp add: t' tx_id_dict_set)
  have k1: "dict_set ''_document_type'' (PStr ''transaction'') t' = t'"
    by (rule dict_set_present) (simp add: t' map_of_dict_set)
  have k2: "dict_set ''_text'' (PStr (tx_text t)) t' = t'"
    by (rule dict_set_present) (simp add: t' map_of_dict_set)
  have k3: "dict_set ''_id'' (PStr (tx_id t)) t' = t'"
    by (rule dict_set_present) (simp add: t' map_of_dict_set)
  show ?thesis
    by (simp add: normalize_transaction_eq [of t'] same_text ident k1 k2 k3)
qed

lemma eval_block_12:
  "normalize_block [(''X'', PInt 1), (''Y'', PInt 2)] =
     Inr [(''X'', PInt 1), (''Y'', PInt 2), (''_document_type'', PStr ''block''),
          (''_text'', PStr (''Block at [1, 2]'' @ NL @ ''Hash: ?'' @ NL
              @ ''Previous Hashes: X=?, Y=?'' @ NL @ ''Context: ?'' @ NL
              @ ''Timestamp: ?'' @ NL @ ''Transactions:'' @ NL)),
          (''_id'', PStr ''block_1_2'')]"
  by code_simp

lemma eval_tx_a:
  "normalize_transaction [(''ID'', PStr ''a'')] =
     Inr [(''ID'', PStr ''a''), (''_document_type'', PStr ''transaction''),
          (''_text'', PStr (''Transaction a'' @ NL @ ''Data: ?'' @ NL)),
          (''_id'', PStr ''tx_a'')]"
  by code_simp


lemma py_str_int_no_underscore: "CHR ''_'' \<notin> set (py_str (PInt i))"
  by (simp add: str_int_no_underscore)

lemma block_id_int_coords:
  "map_of b ''X'' = Some (PInt x) \<Longrightarrow> map_of b ''Y'' = Some (PInt y)
   \<Longrightarrow> block_id b = ''block_'' @ str_int x @ ''_'' @ str_int y"
  by (simp add: block_id_def dict_get_def)

lemma block_id_int_coords_inj:
  assumes "map_of b1 ''X'' = Some (PInt x1)" "map_of b1 ''Y'' = Some (PInt y1)"
    and "map_of b2 ''X'' = Some (PInt x2)" "map_of b2 ''Y'' = Some (PInt y2)"
    and "block_id b1 = block_id b2"
  shows "x1 = x2 \<and> y1 = y2"
proof -
  from assms have "str_int x1 @ CHR ''_'' # str_int y1 = str_int x2 @ CHR ''_'' # str_int y2"
    by (simp add: block_id_int_coords)
  then have "str_int x1 = str_int x2 \<and> str_int y1 = str_int y2"
    by (rule split_at_sep [OF str_int_no_underscore str_int_no_underscore])
  then show ?thesis by (simp add: str_int_inj)
qed

lemma block_document_id:
  "block_document b = Inr d \<Longrightarrow> doc_id d = PStr (block_id b)"
proof -
  assume doc: "block_document b = Inr d"
  then obtain row where "normalize_block b = Inr row"
    by (auto simp: block_document_def split: sum.splits)
  from block_document_eq [OF this] doc show ?thesis by simp
qed

lemma transaction_document_id:
  "transaction_document t = Inr d \<Longrightarrow> doc_id d = PStr (tx_id t)"
  by (auto simp: transaction_document_eq)


lemma field_or_placeholder_missing:
  "map_of r k = None \<Longrightarrow> field_or_placeholder r k = ''?''"
  by (simp add: field_or_placeholder_def)

lemma block_document_text:
  assumes "py_iter (dict_get b ''Data'' (PList [])) = Inr txs"
  shows "\<exists>d. block_document b = Inr d
            \<and> doc_text d = PStr (placeholder_block_header b @ tx_lines 0 txs)"
proof -
  from assms obtain row where row: "normalize_block b = Inr row"
    by (simp add: normalize_block_eq)
  from block_document_eq [OF row] assms show ?thesis
    by (simp add: block_header_placeholder)
qed

lemma non_iterable_data_raises:
  "normalize_block [(''Data'', PNone)] = Inl TypeError"
  by code_simp

lemma block_document_metadata:
  assumes "block_document b = Inr d"
  shows "map_of (metadata d) k =
     (if k = ''_id'' then Some (doc_id d)
      else if k = ''_text'' then Some (doc_text d)
      else if k = ''_document_type'' then Some (PStr ''block'')
      else map_of b k)"
proof -
  from assms obtain row where row: "normalize_block b = Inr row"
    by (auto simp: block_document_def split: sum.splits)
  from block_document_eq [OF row] assms row show ?thesis
    by (auto simp: normalize_block_eq map_of_dict_set split: sum.splits)
qed

lemma transaction_document_metadata:
  assumes "transaction_document t = Inr d"
  shows "map_of (metadata d) k =
     (if k = ''_id'' then Some (doc_id d)
      else if k = ''_text'' then Some (doc_text d)
      else if k = ''_document_type'' then Some (PStr ''transaction'')
      else map_of t k)"
  using assms by (auto simp: transaction_document_eq normalize_transaction_eq map_of_dict_set)


section \<open>Properties of the queue and the supervisor\<close>

lemma run_schedule_snoc:
  "run_schedule (sched @ [a]) = pipeline_step (run_schedule sched) a"
  by (simp add: run_schedule_def)

lemma puts_of_snoc:
  "puts_of s (sched @ [a]) =
     puts_of s sched @ (case a of PutBy s' doc \<Rightarrow> if s' = s then [doc] else [] | ConsumerPass \<Rightarrow> [])"
  by (simp add: puts_of_def)

lemma docs_of_append: "docs_of s (xs @ ys) = docs_of s xs @ docs_of s ys"
  by (simp add: docs_of_def)

lemma pipeline_step_docs:
  "docs_of s (added (pipeline_step p a)) @ docs_of s (pending (pipeline_step p a)) =
   docs_of s (added p) @ docs_of s (pending p)
     @ (case a of PutBy s' doc \<Rightarrow> if s' = s then [doc] else [] | ConsumerPass \<Rightarrow> [])"
proof (cases a)
  case (PutBy s' doc)
  then show ?thesis by (simp add: pipeline_step_def queue_put_def docs_of_def)
next
  case ConsumerPass
  then show ?thesis
    by (cases "pending p") (auto simp: pipeline_step_def queue_get_def docs_of_def)
qed


text \<open>
  Every supervisor procedure only appends to the queue and to the trace, and what it
  appends does not depend on what they held before.
\<close>

lemma fresh_rebase [simp]: "fresh (rebase q tr st) = fresh st"
  by (simp add: fresh_def rebase_def)

lemma fresh_fresh [simp]: "fresh (fresh st) = fresh st"
  by (simp add: fresh_def)

lemma rebase_rebase [simp]:
  "rebase q tr (rebase q' tr' st) = rebase (q @ q') (tr @ tr') st"
  by (simp add: rebase_def)

lemma rebase_fresh_self: "rebase (queue st) (trace st) (fresh st) = st"
  by (simp add: rebase_def fresh_def)

lemma rebase_sel [simp]:
  "queue (rebase q tr st) = q @ queue st"
  "trace (rebase q tr st) = tr @ trace st"
  "stop_event (rebase q tr st) = stop_event st"
  by (simp_all add: rebase_def)

lemma fresh_sel [simp]:
  "queue (fresh st) = []" "trace (fresh st) = []" "stop_event (fresh st) = stop_event st"
  by (simp_all add: fresh_def)

lemma emit_sel [simp]:
  "queue (emit ev st) = queue st"
  "trace (emit ev st) = trace st @ [ev]"
  "stop_event (emit ev st) = stop_event st"
  by (simp_all add: emit_def)

lemma put_sel [simp]:
  "queue (put doc st) = queue st @ [doc]"
  "trace (put doc st) = trace st @ [Enqueued doc]"
  "stop_event (put doc st) = stop_event st"
  by (simp_all add: put_def queue_put_def)

lemma emit_frame: "emit ev st = rebase (queue st) (trace st) (emit ev (fresh st))"
  by (simp add: emit_def rebase_def fresh_def)

lemma put_frame: "put doc st = rebase (queue st) (trace st) (put doc (fresh st))"
  by (simp add: put_def emit_def rebase_def fresh_def queue_put_def)

lemma process_block_frame:
  "process_block v st = map_prod id (rebase (queue st) (trace st)) (process_block v (fresh st))"
  by (cases v) (auto simp: rebase_fresh_self put_frame [of _ st] split: sum.splits)

lemma process_transaction_frame:
  "process_transaction v st =
     map_prod id (rebase (queue st) (trace st)) (process_transaction v (fresh st))"
  by (cases v) (auto simp: rebase_fresh_self put_frame [of _ st] split: sum.splits)

lemma handle_update_frame:
  "handle_update u st = map_prod id (rebase (queue st) (trace st)) (handle_update u (fresh st))"
  by (auto simp: handle_update_def rebase_fresh_self process_block_frame [of _ st]
        process_transaction_frame [of _ st] split: sum.splits)

lemma for_each_frame:
  assumes f: "\<And>x st. f x st = map_prod id (rebase (queue st) (trace st)) (f x (fresh st))"
  shows "for_each f xs st = map_prod id (rebase (queue st) (trace st)) (for_each f xs (fresh st))"
proof (induction xs arbitrary: st)
  case Nil
  show ?case by (simp add: rebase_fresh_self)
next
  case (Cons x xs)
  obtain r s1 where fx: "f x (fresh st) = (r, s1)" by (cases "f x (fresh st)")
  then have fst: "f x st = (r, rebase (queue st) (trace st) s1)"
    by (subst f) simp
  show ?case
  proof (cases r)
    case (Some e)
    with fx fst show ?thesis by simp
  next
    case None
    have "for_each f (x # xs) st = for_each f xs (rebase (queue st) (trace st) s1)"
      using fst None by simp
    also have "\<dots> = map_prod id (rebase (queue st @ queue s1) (trace st @ trace s1))
                       (for_each f xs (fresh s1))"
      by (subst Cons.IH) simp
    also have "\<dots> = map_prod id (rebase (queue st) (trace st))
                       (map_prod id (rebase (queue s1) (trace s1)) (for_each f xs (fresh s1)))"
      by (cases "for_each f xs (fresh s1)") simp
    also have "\<dots> = map_prod id (rebase (queue st) (trace st)) (for_each f xs s1)"
      by (subst (2) Cons.IH) simp
    also have "\<dots> = map_prod id (rebase (queue st) (trace st)) (for_each f (x # xs) (fresh st))"
      using fx None by simp
    finally show ?thesis .
  qed
qed

lemma for_each_handle_update_frame:
  "for_each handle_update xs st =
     map_prod id (rebase (queue st) (trace st)) (for_each handle_update xs (fresh st))"
  by (rule for_each_frame) (rule handle_update_frame)

lemma attempt_once_frame:
  "attempt_once a st = rebase (queue st) (trace st) (attempt_once a (fresh st))"
proof -
  have e: "emit Subscribed st = rebase (queue st) (trace st) (emit Subscribed (fresh st))"
    by (rule emit_frame)
  obtain r s1 where run: "for_each handle_update (updates a) (emit Subscribed (fresh st)) = (r, s1)"
    by (cases "for_each handle_update (updates a) (emit Subscribed (fresh st))")
  have "for_each handle_update (updates a) (emit Subscribed st)
        = map_prod id (rebase (queue (emit Subscribed st)) (trace (emit Subscribed st)))
            (for_each handle_update (updates a) (fresh (emit Subscribed st)))"
    by (rule for_each_handle_update_frame)
  moreover have "for_each handle_update (updates a) (emit Subscribed (fresh st))
        = map_prod id (rebase [] [Subscribed])
            (for_each handle_update (updates a) (fresh (emit Subscribed (fresh st))))"
    using for_each_handle_update_frame [of "updates a" "emit Subscribed (fresh st)"]
    by simp
  moreover have "fresh (emit Subscribed (fresh st)) = fresh (emit Subscribed st)"
    by (simp add: fresh_def emit_def)
  ultimately have run': "for_each handle_update (updates a) (emit Subscribed st)
        = (r, rebase (queue st) (trace st) s1)"
    using run by (cases "for_each handle_update (updates a) (fresh (emit Subscribed st))") auto
  show ?thesis
    unfolding attempt_once_def run run'
    by (auto simp: rebase_def emit_def split: option.splits sub_end.splits)
qed

lemma stream_updates_frame:
  "stream_updates atts st = rebase (queue st) (trace st) (stream_updates atts (fresh st))"
proof (induction atts arbitrary: st)
  case Nil
  show ?case by (simp add: rebase_fresh_self emit_frame [of _ st])
next
  case (Cons a atts)
  show ?case
  proof (cases "stop_event st")
    case True
    then show ?thesis by (simp add: emit_frame [of _ st])
  next
    case False
    have "stream_updates (a # atts) st = stream_updates atts (attempt_once a st)"
      using False by simp
    also have "\<dots> = stream_updates atts (rebase (queue st) (trace st) (attempt_once a (fresh st)))"
      by (subst attempt_once_frame) simp
    also have "\<dots> = rebase (queue st @ queue (attempt_once a (fresh st)))
                         (trace st @ trace (attempt_once a (fresh st)))
                         (stream_updates atts (fresh (attempt_once a (fresh st))))"
      by (subst Cons.IH) simp
    also have "\<dots> = rebase (queue st) (trace st)
                         (rebase (queue (attempt_once a (fresh st))) (trace (attempt_once a (fresh st)))
                           (stream_updates atts (fresh (attempt_once a (fresh st)))))"
      by simp
    also have "\<dots> = rebase (queue st) (trace st) (stream_updates atts (attempt_once a (fresh st)))"
      by (subst (2) Cons.IH) simp
    also have "\<dots> = rebase (queue st) (trace st) (stream_updates (a # atts) (fresh st))"
      using False by simp
    finally show ?thesis .
  qed
qed

lemma process_block_None:
  "process_block v st = (None, st') \<Longrightarrow> st' = put (block_row v) st"
  by (cases v) (auto simp: block_row_def dict_of_def split: sum.splits)

lemma process_transaction_None:
  "process_transaction v st = (None, st') \<Longrightarrow> st' = put (transaction_row v) st"
  by (cases v) (auto simp: transaction_row_def dict_of_def split: sum.splits)

lemma for_each_process_block_None:
  "for_each process_block vs st = (None, st') \<Longrightarrow>
     queue st' = queue st @ map block_row vs
     \<and> trace st' = trace st @ map (\<lambda>v. Enqueued (block_row v)) vs
     \<and> stop_event st' = stop_event st"
proof (induction vs arbitrary: st)
  case Nil
  then show ?case by simp
next
  case (Cons v vs)
  obtain r s1 where step: "process_block v st = (r, s1)" by (cases "process_block v st")
  with Cons.prems have r: "r = None" and rest: "for_each process_block vs s1 = (None, st')"
    by (auto split: option.splits)
  from step r have "s1 = put (block_row v) st" by (simp add: process_block_None)
  with Cons.IH [OF rest] show ?case by simp
qed

lemma for_each_process_transaction_None:
  "for_each process_transaction vs st = (None, st') \<Longrightarrow>
     queue st' = queue st @ map transaction_row vs
     \<and> trace st' = trace st @ map (\<lambda>v. Enqueued (transaction_row v)) vs
     \<and> stop_event st' = stop_event st"
proof (induction vs arbitrary: st)
  case Nil
  then show ?case by simp
next
  case (Cons v vs)
  obtain r s1 where step: "process_transaction v st = (r, s1)"
    by (cases "process_transaction v st")
  with Cons.prems have r: "r = None" and rest: "for_each process_transaction vs s1 = (None, st')"
    by (auto split: option.splits)
  from step r have "s1 = put (transaction_row v) st" by (simp add: process_transaction_None)
  with Cons.IH [OF rest] show ?case by simp
qed

lemma process_block_stop: "stop_event (snd (process_block v st)) = stop_event st"
  by (cases v) (auto split: sum.splits)

lemma process_transaction_stop: "stop_event (snd (process_transaction v st)) = stop_event st"
  by (cases v) (auto split: sum.splits)

lemma for_each_stop:
  assumes "\<And>x st. stop_event (snd (f x st)) = stop_event st"
  shows "stop_event (snd (for_each f xs st)) = stop_event st"
proof (induction xs arbitrary: st)
  case Nil
  show ?case by simp
next
  case (Cons x xs)
  obtain r s1 where step: "f x st = (r, s1)" by (cases "f x st")
  with assms [of x st] have "stop_event s1 = stop_event st" by simp
  with step Cons.IH [of s1] show ?case by (cases r) simp_all
qed

lemma for_each_process_block_grows:
  "prefix (queue st) (queue (snd (for_each process_block vs st)))
   \<and> stop_event (snd (for_each process_block vs st)) = stop_event st"
proof -
  have "for_each process_block vs st =
        map_prod id (rebase (queue st) (trace st)) (for_each process_block vs (fresh st))"
    by (rule for_each_frame) (rule process_block_frame)
  then show ?thesis
    using for_each_stop [of process_block vs st, OF process_block_stop]
    by (cases "for_each process_block vs (fresh st)") simp
qed

lemma for_each_process_transaction_grows:
  "prefix (queue st) (queue (snd (for_each process_transaction vs st)))
   \<and> stop_event (snd (for_each process_transaction vs st)) = stop_event st"
proof -
  have "for_each process_transaction vs st =
        map_prod id (rebase (queue st) (trace st)) (for_each process_transaction vs (fresh st))"
    by (rule for_each_frame) (rule process_transaction_frame)
  then show ?thesis
    using for_each_stop [of process_transaction vs st, OF process_transaction_stop]
    by (cases "for_each process_transaction vs (fresh st)") simp
qed

lemma load_body_grows:
  "prefix (queue st) (queue (snd (load_body conn st)))
   \<and> stop_event (snd (load_body conn st)) = stop_event st"
proof (cases "get_blocks conn")
  case (Inl e)
  then show ?thesis by (simp add: load_body_def)
next
  case (Inr blocks)
  obtain r1 st1 where b: "for_each process_block blocks st = (r1, st1)"
    by (cases "for_each process_block blocks st")
  from for_each_process_block_grows [of st blocks] b
  have g1: "prefix (queue st) (queue st1)" and s1: "stop_event st1 = stop_event st" by simp_all
  show ?thesis
  proof (cases r1)
    case (Some e)
    with Inr b g1 s1 show ?thesis by (simp add: load_body_def)
  next
    case None
    show ?thesis
    proof (cases "get_transactions conn")
      case (Inl e)
      with Inr b None g1 s1 show ?thesis by (simp add: load_body_def)
    next
      case txs: (Inr txs)
      obtain r2 st2 where t: "for_each process_transaction txs st1 = (r2, st2)"
        by (cases "for_each process_transaction txs st1")
      from for_each_process_transaction_grows [of st1 txs] t
      have g2: "prefix (queue st1) (queue st2)" and s2: "stop_event st2 = stop_event st1"
        by simp_all
      from g1 g2 have "prefix (queue st) (queue st2)" by (rule prefix_order.trans)
      with Inr b None txs t s1 s2 show ?thesis
        by (cases r2) (simp_all add: load_body_def)
    qed
  qed
qed

lemma load_initial_state_sel:
  "fst (load_initial_state conn st) = None"
  "queue (snd (load_initial_state conn st)) = queue (snd (load_body conn st))"
  "stop_event (snd (load_initial_state conn st)) = stop_event (snd (load_body conn st))"
  by (cases "load_body conn st"; cases "fst (load_body conn st)";
      simp add: load_initial_state_def)+

lemma start_eq:
  "start conn st = (None, emit TaskCreated (snd (load_initial_state conn st)))"
  using load_initial_state_sel(1) [of conn st]
  by (cases "load_initial_state conn st") (simp add: start_def)












section \<open>Claims about the Document Normalizer\<close>

text \<open>
  Claim C1, as the code has it. The id of a block document is \<open>block_<X>_<Y>\<close> with a
  missing \<open>X\<close> or \<open>Y\<close> written as \<open>0\<close>, and the id of a transaction document is
  \<open>tx_<ID>\<close> with a missing \<open>ID\<close> written as the empty string. Two blocks whose \<open>X\<close> and
  \<open>Y\<close> are present integers and differ in a coordinate get different ids; so do two
  transactions whose \<open>ID\<close>s are present and are different strings, or different
  integers; and a block id never equals a transaction id.
\<close>

theorem document_id_derivation:
  assumes "block_document b1 = Inr d1" and "block_document b2 = Inr d2"
    and "transaction_document t1 = Inr e1" and "transaction_document t2 = Inr e2"
  shows "doc_id d1 = PStr (''block_'' @ py_str (dict_get b1 ''X'' (PInt 0)) @ ''_''
                              @ py_str (dict_get b1 ''Y'' (PInt 0)))
     \<and> doc_id e1 = PStr (''tx_'' @ py_str (dict_get t1 ''ID'' (PStr '''')))
     \<and> (map_of b1 ''X'' = Some (PInt x1) \<and> map_of b1 ''Y'' = Some (PInt y1)
        \<and> map_of b2 ''X'' = Some (PInt x2) \<and> map_of b2 ''Y'' = Some (PInt y2)
        \<and> (x1, y1) \<noteq> (x2, y2) \<longrightarrow> doc_id d1 \<noteq> doc_id d2)
     \<and> (map_of t1 ''ID'' = Some (PStr s1) \<and> map_of t2 ''ID'' = Some (PStr s2) \<and> s1 \<noteq> s2
        \<longrightarrow> doc_id e1 \<noteq> doc_id e2)
     \<and> (map_of t1 ''ID'' = Some (PInt n1) \<and> map_of t2 ''ID'' = Some (PInt n2) \<and> n1 \<noteq> n2
        \<longrightarrow> doc_id e1 \<noteq> doc_id e2)
     \<and> doc_id d1 \<noteq> doc_id e1"
proof -
  note ids = block_document_id [OF assms(1)] block_document_id [OF assms(2)]
    transaction_document_id [OF assms(3)] transaction_document_id [OF assms(4)]
  have a: "doc_id d1 = PStr (''block_'' @ py_str (dict_get b1 ''X'' (PInt 0)) @ ''_''
                              @ py_str (dict_get b1 ''Y'' (PInt 0)))"
    by (simp add: ids block_id_def)
  have b: "doc_id e1 = PStr (''tx_'' @ py_str (dict_get t1 ''ID'' (PStr '''')))"
    by (simp add: ids tx_id_def)
  have c: "map_of b1 ''X'' = Some (PInt x1) \<and> map_of b1 ''Y'' = Some (PInt y1)
        \<and> map_of b2 ''X'' = Some (PInt x2) \<and> map_of b2 ''Y'' = Some (PInt y2)
        \<and> (x1, y1) \<noteq> (x2, y2) \<longrightarrow> doc_id d1 \<noteq> doc_id d2"
    using block_id_int_coords_inj [of b1 x1 y1 b2 x2 y2] by (auto simp: ids)
  have d: "map_of t1 ''ID'' = Some (PStr s1) \<and> map_of t2 ''ID'' = Some (PStr s2) \<and> s1 \<noteq> s2
        \<longrightarrow> doc_id e1 \<noteq> doc_id e2"
    by (simp add: ids tx_id_def dict_get_def)
  have e: "map_of t1 ''ID'' = Some (PInt n1) \<and> map_of t2 ''ID'' = Some (PInt n2) \<and> n1 \<noteq> n2
        \<longrightarrow> doc_id e1 \<noteq> doc_id e2"
    by (auto simp: ids tx_id_def dict_get_def dest: str_int_inj)
  have f: "doc_id d1 \<noteq> doc_id e1"
    by (simp add: ids block_id_def tx_id_def)
  from a b c d e f show ?thesis by blast
qed

theorem document_id_derivation_witness:
  "doc_id (projr (block_document [(''X'', PInt 1), (''Y'', PInt 2)])) = PStr ''block_1_2''
   \<and> doc_id (projr (transaction_document [(''ID'', PStr ''a'')])) = PStr ''tx_a''
   \<and> doc_id (projr (block_document [(''X'', PInt 1), (''Y'', PInt 2)]))
        \<noteq> doc_id (projr (block_document [(''X'', PInt 12), (''Y'', PInt 0)]))
   \<and> doc_id (projr (transaction_document [(''ID'', PStr ''a'')]))
        \<noteq> doc_id (projr (transaction_document [(''ID'', PStr ''b'')]))
   \<and> doc_id (projr (transaction_document [(''ID'', PInt 7)]))
        \<noteq> doc_id (projr (transaction_document [(''ID'', PInt 8)]))
   \<and> doc_id (projr (block_document [(''X'', PInt 1), (''Y'', PInt 2)]))
        \<noteq> doc_id (projr (transaction_document [(''ID'', PStr ''a'')]))"
proof -
  have b1: "block_document [(''X'', PInt 1), (''Y'', PInt 2)]
            = Inr (projr (block_document [(''X'', PInt 1), (''Y'', PInt 2)]))"
    by code_simp
  have b2: "block_document [(''X'', PInt 12), (''Y'', PInt 0)]
            = Inr (projr (block_document [(''X'', PInt 12), (''Y'', PInt 0)]))"
    by code_simp
  have t1: "transaction_document [(''ID'', PStr ''a'')]
            = Inr (projr (transaction_document [(''ID'', PStr ''a'')]))"
    by code_simp
  have t2: "transaction_document [(''ID'', PStr ''b'')]
            = Inr (projr (transaction_document [(''ID'', PStr ''b'')]))"
    by code_simp
  have t3: "transaction_document [(''ID'', PInt 7)]
            = Inr (projr (transaction_document [(''ID'', PInt 7)]))"
    by code_simp
  have t4: "transaction_document [(''ID'', PInt 8)]
            = Inr (projr (transaction_document [(''ID'', PInt 8)]))"
    by code_simp
  show ?thesis
    using document_id_derivation [OF b1 b2 t1 t2, of 1 2 12 0 "''a''" "''b''" 0 0]
      document_id_derivation [OF b1 b2 t3 t4, of 1 2 12 0 "''a''" "''b''" 7 8]
    by (auto simp: dict_get_def str_int_def digits.simps digit_char_def)
qed

text \<open>
  Claim C1 as stated fails for records with missing fields: a block without \<open>X\<close> and
  \<open>Y\<close> gets the id of the block at position \<open>(0, 0)\<close>.
\<close>

theorem missing_coordinates_collide:
  "map_sum id doc_id (block_document []) = Inr (PStr ''block_0_0'')
   \<and> map_sum id doc_id (block_document [(''X'', PInt 0), (''Y'', PInt 0)]) = Inr (PStr ''block_0_0'')"
  by code_simp



text \<open>
  Claim C2. Normalization is stable under repeated calls: a record that a first pass has
  already processed is left exactly as it is by a second pass, for blocks and for
  transactions, so the second pass yields the same document (same id, same text).
\<close>

theorem normalization_idempotent:
  "(normalize_block b = Inr b' \<longrightarrow>
      normalize_block b' = Inr b' \<and> block_document b' = block_document b)
   \<and> (normalize_transaction t = Inr t' \<longrightarrow>
      normalize_transaction t' = Inr t' \<and> transaction_document t' = transaction_document t)"
proof (intro conjI impI)
  assume h: "normalize_block b = Inr b'"
  then show f: "normalize_block b' = Inr b'" by (rule normalize_block_fixed)
  from h f show "block_document b' = block_document b" by (simp add: block_document_def)
next
  assume h: "normalize_transaction t = Inr t'"
  then show f: "normalize_transaction t' = Inr t'" by (rule normalize_transaction_fixed)
  from h f show "transaction_document t' = transaction_document t"
    by (simp add: transaction_document_def)
qed


theorem normalization_idempotent_witness:
  "normalize_block [(''X'', PInt 1), (''Y'', PInt 2)] =
     Inr [(''X'', PInt 1), (''Y'', PInt 2), (''_document_type'', PStr ''block''),
          (''_text'', PStr (''Block at [1, 2]'' @ NL @ ''Hash: ?'' @ NL
              @ ''Previous Hashes: X=?, Y=?'' @ NL @ ''Context: ?'' @ NL
              @ ''Timestamp: ?'' @ NL @ ''Transactions:'' @ NL)),
          (''_id'', PStr ''block_1_2'')]
   \<and> normalize_block [(''X'', PInt 1), (''Y'', PInt 2), (''_document_type'', PStr ''block''),
          (''_text'', PStr (''Block at [1, 2]'' @ NL @ ''Hash: ?'' @ NL
              @ ''Previous Hashes: X=?, Y=?'' @ NL @ ''Context: ?'' @ NL
              @ ''Timestamp: ?'' @ NL @ ''Transactions:'' @ NL)),
          (''_id'', PStr ''block_1_2'')] =
     Inr [(''X'', PInt 1), (''Y'', PInt 2), (''_document_type'', PStr ''block''),
          (''_text'', PStr (''Block at [1, 2]'' @ NL @ ''Hash: ?'' @ NL
              @ ''Previous Hashes: X=?, Y=?'' @ NL @ ''Context: ?'' @ NL
              @ ''Timestamp: ?'' @ NL @ ''Transactions:'' @ NL)),
          (''_id'', PStr ''block_1_2'')]
   \<and> normalize_transaction [(''ID'', PStr ''a'')] =
     Inr [(''ID'', PStr ''a''), (''_document_type'', PStr ''transaction''),
          (''_text'', PStr (''Transaction a'' @ NL @ ''Data: ?'' @ NL)),
          (''_id'', PStr ''tx_a'')]
   \<and> normalize_transaction [(''ID'', PStr ''a''), (''_document_type'', PStr ''transaction''),
          (''_text'', PStr (''Transaction a'' @ NL @ ''Data: ?'' @ NL)),
          (''_id'', PStr ''tx_a'')] =
     Inr [(''ID'', PStr ''a''), (''_document_type'', PStr ''transaction''),
          (''_text'', PStr (''Transaction a'' @ NL @ ''Data: ?'' @ NL)),
          (''_id'', PStr ''tx_a'')]"
  using normalization_idempotent
    [of "[(''X'', PInt 1), (''Y'', PInt 2)]"
        "[(''X'', PInt 1), (''Y'', PInt 2), (''_document_type'', PStr ''block''),
          (''_text'', PStr (''Block at [1, 2]'' @ NL @ ''Hash: ?'' @ NL
              @ ''Previous Hashes: X=?, Y=?'' @ NL @ ''Context: ?'' @ NL
              @ ''Timestamp: ?'' @ NL @ ''Transactions:'' @ NL)),
          (''_id'', PStr ''block_1_2'')]"
        "[(''ID'', PStr ''a'')]"
        "[(''ID'', PStr ''a''), (''_document_type'', PStr ''transaction''),
          (''_text'', PStr (''Transaction a'' @ NL @ ''Data: ?'' @ NL)),
          (''_id'', PStr ''tx_a'')]"]
    eval_block_12 eval_tx_a
  by blast

text \<open>
  Claim C3, as the code has it. Normalising a transaction record never raises, and
  normalising a block record never raises when its \<open>Data\<close> field is absent or holds an
  iterable value. In the text, each missing field among \<open>X\<close>, \<open>Y\<close>, \<open>Hash\<close>,
  \<open>PrevHashX\<close>, \<open>PrevHashY\<close>, \<open>Context\<close>, \<open>Timestamp\<close> of a block and \<open>ID\<close>, \<open>Data\<close>
  of a transaction is written as the placeholder \<open>?\<close>; a missing \<open>Data\<close> of a block is
  written as an empty transaction listing.
\<close>

theorem normalization_total_with_placeholders:
  assumes "map_of b ''Data'' = None \<and> txs = []
           \<or> (\<exists>v. map_of b ''Data'' = Some v \<and> py_iter v = Inr txs)"
  shows "(\<exists>d. block_document b = Inr d
              \<and> doc_text d = PStr (placeholder_block_header b @ tx_lines 0 txs))
       \<and> (\<exists>d. transaction_document t = Inr d \<and> doc_text d = PStr (placeholder_tx_text t))
       \<and> (map_of b k = None \<longrightarrow> field_or_placeholder b k = ''?'')
       \<and> (map_of t k = None \<longrightarrow> field_or_placeholder t k = ''?'')"
proof -
  from assms have "py_iter (dict_get b ''Data'' (PList [])) = Inr txs"
    by (auto simp: dict_get_def)
  then have "\<exists>d. block_document b = Inr d
              \<and> doc_text d = PStr (placeholder_block_header b @ tx_lines 0 txs)"
    by (rule block_document_text)
  moreover have "\<exists>d. transaction_document t = Inr d \<and> doc_text d = PStr (placeholder_tx_text t)"
    by (simp add: transaction_document_eq tx_text_placeholder)
  ultimately show ?thesis by (simp add: field_or_placeholder_missing)
qed

theorem normalization_total_with_placeholders_witness:
  "(\<exists>d. block_document [(''Data'', PList [PStr ''pay'']), (''X'', PInt 1)] = Inr d
       \<and> doc_text d = PStr (''Block at [1, ?]'' @ NL @ ''Hash: ?'' @ NL
              @ ''Previous Hashes: X=?, Y=?'' @ NL @ ''Context: ?'' @ NL
              @ ''Timestamp: ?'' @ NL @ ''Transactions:'' @ NL @ ''  1. pay'' @ NL))
   \<and> (\<exists>d. block_document [] = Inr d
       \<and> doc_text d = PStr (''Block at [?, ?]'' @ NL @ ''Hash: ?'' @ NL
              @ ''Previous Hashes: X=?, Y=?'' @ NL @ ''Context: ?'' @ NL
              @ ''Timestamp: ?'' @ NL @ ''Transactions:'' @ NL))
   \<and> (\<exists>d. transaction_document [] = Inr d
       \<and> doc_text d = PStr (''Transaction ?'' @ NL @ ''Data: ?'' @ NL))"
proof -
  have h1: "map_of [(''Data'', PList [PStr ''pay'']), (''X'', PInt 1)] ''Data'' = None \<and> [PStr ''pay''] = []
           \<or> (\<exists>v. map_of [(''Data'', PList [PStr ''pay'']), (''X'', PInt 1)] ''Data'' = Some v
                  \<and> py_iter v = Inr [PStr ''pay''])"
    by simp
  have h2: "map_of ([] :: pyrec) ''Data'' = None \<and> ([] :: pyval list) = []
           \<or> (\<exists>v. map_of ([] :: pyrec) ''Data'' = Some v \<and> py_iter v = Inr [])"
    by simp
  show ?thesis
    using normalization_total_with_placeholders [OF h1, of "[]" "''Y''"]
      normalization_total_with_placeholders [OF h2, of "[]" "''ID''"]
    by (simp add: placeholder_block_header_def placeholder_tx_text_def field_or_placeholder_def
          str_int_def digits.simps digit_char_def)
qed


text \<open>
  Claim C3 as stated fails for the \<open>Data\<close> field of a block: when only \<open>Data\<close> is missing,
  the text ends after the line \<open>Transactions:\<close> and holds no placeholder.
\<close>

theorem missing_block_data_has_no_placeholder:
  "map_sum id doc_text (block_document
      [(''X'', PInt 1), (''Y'', PInt 2), (''Hash'', PStr ''h''), (''PrevHashX'', PStr ''a''),
       (''PrevHashY'', PStr ''b''), (''Context'', PStr ''c''), (''Timestamp'', PInt 5)])
   = Inr (PStr (''Block at [1, 2]'' @ NL @ ''Hash: h'' @ NL
              @ ''Previous Hashes: X=a, Y=b'' @ NL @ ''Context: c'' @ NL
              @ ''Timestamp: 5'' @ NL @ ''Transactions:'' @ NL))
   \<and> CHR ''?'' \<notin> set (''Block at [1, 2]'' @ NL @ ''Hash: h'' @ NL
              @ ''Previous Hashes: X=a, Y=b'' @ NL @ ''Context: c'' @ NL
              @ ''Timestamp: 5'' @ NL @ ''Transactions:'' @ NL)"
  by code_simp


text \<open>
  Claim C9, as the code has it. The stored metadata is the source record after
  normalization: it holds the derived fields \<open>_id\<close>, \<open>_text\<close> and \<open>_document_type\<close>
  (replacing fields of those names, if the source had any), and every other field of the
  source record with its value unchanged, and nothing else.
\<close>

theorem metadata_is_record_with_derived_fields:
  assumes "block_document b = Inr d" and "transaction_document t = Inr e"
  shows "map_of (metadata d) k =
          (if k = ''_id'' then Some (doc_id d)
           else if k = ''_text'' then Some (doc_text d)
           else if k = ''_document_type'' then Some (PStr ''block'')
           else map_of b k)
       \<and> map_of (metadata e) k =
          (if k = ''_id'' then Some (doc_id e)
           else if k = ''_text'' then Some (doc_text e)
           else if k = ''_document_type'' then Some (PStr ''transaction'')
           else map_of t k)"
  using assms by (simp only: block_document_metadata transaction_document_metadata simp_thms)


theorem metadata_is_record_with_derived_fields_witness:
  "map_of (metadata (projr (block_document [(''X'', PInt 1), (''Y'', PInt 2)]))) ''X'' = Some (PInt 1)
   \<and> map_of (metadata (projr (block_document [(''X'', PInt 1), (''Y'', PInt 2)]))) ''_document_type''
        = Some (PStr ''block'')
   \<and> map_of (metadata (projr (transaction_document [(''ID'', PStr ''a'')]))) ''ID'' = Some (PStr ''a'')
   \<and> map_of (metadata (projr (transaction_document [(''ID'', PStr ''a'')]))) ''Hash'' = None"
proof -
  have b: "block_document [(''X'', PInt 1), (''Y'', PInt 2)]
            = Inr (projr (block_document [(''X'', PInt 1), (''Y'', PInt 2)]))"
    by code_simp
  have t: "transaction_document [(''ID'', PStr ''a'')]
            = Inr (projr (transaction_document [(''ID'', PStr ''a'')]))"
    by code_simp
  show ?thesis
    using metadata_is_record_with_derived_fields [OF b t, of "''X''"]
      metadata_is_record_with_derived_fields [OF b t, of "''_document_type''"]
      metadata_is_record_with_derived_fields [OF b t, of "''ID''"]
      metadata_is_record_with_derived_fields [OF b t, of "''Hash''"]
    by simp
qed

text \<open>
  Claim C9 as stated fails: normalization adds three fields to the record that becomes
  the metadata.
\<close>

theorem metadata_not_verbatim:
  "map_sum id metadata (transaction_document [(''ID'', PStr ''a'')])
     = Inr [(''ID'', PStr ''a''), (''_document_type'', PStr ''transaction''),
            (''_text'', PStr (''Transaction a'' @ NL @ ''Data: ?'' @ NL)),
            (''_id'', PStr ''tx_a'')]
   \<and> map_sum id metadata (transaction_document [(''ID'', PStr ''a'')])
     \<noteq> Inr [(''ID'', PStr ''a'')]"
  by code_simp

section \<open>Claims about the Embedding Engine\<close>

text \<open>
  Claim C4. When the model's \<open>encode\<close> call fails, \<open>embed_text\<close> returns normally, and
  its result is a vector whose length is the model's embedding dimension and whose
  components are all zero.
\<close>

theorem embed_text_failure_gives_zero_vector:
  assumes "encode model txt = Inl e"
  shows "\<exists>v. embed_text model txt = Inr v
            \<and> length v = get_sentence_embedding_dimension model
            \<and> (\<forall>i < length v. v ! i = 0)"
  using assms by (simp add: embed_text_def)

theorem embed_text_failure_gives_zero_vector_witness:
  "embed_text \<lparr>encode = (\<lambda>t. Inl (OtherException ''model failure'')),
               encode_batch = (\<lambda>ts. Inl (OtherException ''model failure'')),
               get_sentence_embedding_dimension = 3\<rparr> ''Block at [1, 2]''
     = Inr [0, 0, 0 :: int]"
proof -
  have h: "encode \<lparr>encode = (\<lambda>t. Inl (OtherException ''model failure'')),
               encode_batch = (\<lambda>ts. Inl (OtherException ''model failure'')),
               get_sentence_embedding_dimension = 3\<rparr> ''Block at [1, 2]''
           = (Inl (OtherException ''model failure'') :: py_exception + int list)"
    by simp
  from embed_text_failure_gives_zero_vector [OF h]
  obtain v where v: "embed_text \<lparr>encode = (\<lambda>t. Inl (OtherException ''model failure'')),
               encode_batch = (\<lambda>ts. Inl (OtherException ''model failure'')),
               get_sentence_embedding_dimension = 3\<rparr> ''Block at [1, 2]'' = Inr v"
    and len: "length v = 3" and zero: "\<forall>i < length v. v ! i = (0::int)"
    by auto
  from len zero have "v = [0, 0, 0]"
    by (cases v; simp; cases "tl v"; simp; cases "tl (tl v)"; auto simp: nth_Cons')
  with v show ?thesis by simp
qed


text \<open>
  Claim C5. \<open>embed_batch\<close> returns normally with one vector per input text. When the
  model's batch call fails, every vector is the zero vector of the model's dimension.
  When it succeeds, the result is what the library returned, so vector \<open>i\<close> is the
  encoding of text \<open>i\<close>; the hypothesis is the library's contract that a batch encoding
  has one row per text, row \<open>i\<close> being the encoding of text \<open>i\<close>.
\<close>

theorem embed_batch_one_vector_per_text:
  assumes "\<And>embeddings. encode_batch model texts = Inr embeddings \<Longrightarrow>
             length embeddings = length texts
             \<and> (\<forall>i < length texts. encode model (texts ! i) = Inr (embeddings ! i))"
  shows "\<exists>vs. embed_batch model texts = Inr vs
            \<and> length vs = length texts
            \<and> ((\<exists>e. encode_batch model texts = Inl e) \<longrightarrow>
                 (\<forall>i < length texts.
                    vs ! i = replicate (get_sentence_embedding_dimension model) 0))
            \<and> ((\<exists>embeddings. encode_batch model texts = Inr embeddings) \<longrightarrow>
                 (\<forall>i < length texts. encode model (texts ! i) = Inr (vs ! i)))"
proof (cases "encode_batch model texts")
  case (Inl e)
  then show ?thesis by (simp add: embed_batch_def)
next
  case (Inr embeddings)
  with assms [OF Inr] show ?thesis by (simp add: embed_batch_def)
qed

theorem embed_batch_one_vector_per_text_witness:
  "embed_batch \<lparr>encode = (\<lambda>t. Inr [int (length t)]),
                encode_batch = (\<lambda>ts. Inr (map (\<lambda>t. [int (length t)]) ts)),
                get_sentence_embedding_dimension = 1\<rparr> [''ab'', ''c''] = Inr [[2], [1]]
   \<and> (\<exists>vs. embed_batch \<lparr>encode = (\<lambda>t. Inl (OtherException ''model failure'')),
                encode_batch = (\<lambda>ts. Inl (OtherException ''model failure'')),
                get_sentence_embedding_dimension = 2\<rparr> [''ab'', ''c''] = Inr vs
          \<and> length vs = 2 \<and> vs ! 0 = [0, 0 :: int] \<and> vs ! 1 = [0, 0])"
proof -
  have ok: "\<And>embeddings.
      encode_batch \<lparr>encode = (\<lambda>t. Inr [int (length t)]),
                encode_batch = (\<lambda>ts. Inr (map (\<lambda>t. [int (length t)]) ts)),
                get_sentence_embedding_dimension = 1\<rparr> [''ab'', ''c''] = Inr embeddings \<Longrightarrow>
      length embeddings = length [''ab'', ''c'']
      \<and> (\<forall>i < length [''ab'', ''c''].
            encode \<lparr>encode = (\<lambda>t. Inr [int (length t)]),
                encode_batch = (\<lambda>ts. Inr (map (\<lambda>t. [int (length t)]) ts)),
                get_sentence_embedding_dimension = 1\<rparr> ([''ab'', ''c''] ! i) = Inr (embeddings ! i))"
    by (auto simp: nth_Cons')
  have failing: "\<And>embeddings.
      encode_batch \<lparr>encode = (\<lambda>t. Inl (OtherException ''model failure'')),
                encode_batch = (\<lambda>ts. Inl (OtherException ''model failure'')),
                get_sentence_embedding_dimension = 2\<rparr> [''ab'', ''c'']
         = (Inr embeddings :: py_exception + int list list) \<Longrightarrow>
      length embeddings = length [''ab'', ''c'']
      \<and> (\<forall>i < length [''ab'', ''c''].
            encode \<lparr>encode = (\<lambda>t. Inl (OtherException ''model failure'')),
                encode_batch = (\<lambda>ts. Inl (OtherException ''model failure'')),
                get_sentence_embedding_dimension = 2\<rparr> ([''ab'', ''c''] ! i) = Inr (embeddings ! i))"
    by simp
  have first: "embed_batch \<lparr>encode = (\<lambda>t. Inr [int (length t)]),
                encode_batch = (\<lambda>ts. Inr (map (\<lambda>t. [int (length t)]) ts)),
                get_sentence_embedding_dimension = 1\<rparr> [''ab'', ''c''] = Inr [[2], [1]]"
    using embed_batch_one_vector_per_text [OF ok] by (simp add: embed_batch_def)
  have second: "\<exists>vs. embed_batch \<lparr>encode = (\<lambda>t. Inl (OtherException ''model failure'')),
                encode_batch = (\<lambda>ts. Inl (OtherException ''model failure'')),
                get_sentence_embedding_dimension = 2\<rparr> [''ab'', ''c''] = Inr vs
          \<and> length vs = 2 \<and> vs ! 0 = [0, 0 :: int] \<and> vs ! 1 = [0, 0]"
    using embed_batch_one_vector_per_text [OF failing] by (auto simp: numeral_2_eq_2)
  from first second show ?thesis by blast
qed

section \<open>Claims about the queue and the Stream Supervisor\<close>

text \<open>
  Claim C6. For every schedule of producer puts and consumer passes, and for each
  producer, the documents of that producer that the consumer has handed to the index,
  followed by those still waiting in the queue, are exactly the documents that producer
  has put, in the order it put them. So what has been applied for one producer is
  always an initial segment of what that producer has enqueued: a document is applied
  no later than any document the same producer enqueued after it.
\<close>

theorem per_source_order_preserved:
  "docs_of s (added (run_schedule sched)) @ docs_of s (pending (run_schedule sched))
     = puts_of s sched
   \<and> prefix (docs_of s (added (run_schedule sched))) (puts_of s sched)"
proof -
  have "docs_of s (added (run_schedule sched)) @ docs_of s (pending (run_schedule sched))
     = puts_of s sched"
  proof (induction sched rule: rev_induct)
    case Nil
    show ?case by (simp add: run_schedule_def puts_of_def docs_of_def)
  next
    case (snoc a sched)
    show ?case
      using snoc.IH pipeline_step_docs [of s "run_schedule sched" a]
      by (simp add: run_schedule_snoc puts_of_snoc)
  qed
  then show ?thesis by (metis prefixI)
qed

theorem per_source_order_preserved_witness:
  "docs_of InitialLoad (added (run_schedule
      [PutBy InitialLoad [(''_id'', PStr ''block_0_0'')], PutBy LiveUpdates [(''_id'', PStr ''tx_a'')],
       ConsumerPass, PutBy InitialLoad [(''_id'', PStr ''block_0_1'')], ConsumerPass, ConsumerPass]))
     = [[(''_id'', PStr ''block_0_0'')], [(''_id'', PStr ''block_0_1'')]]
   \<and> added (run_schedule
      [PutBy InitialLoad [(''_id'', PStr ''block_0_0'')], PutBy LiveUpdates [(''_id'', PStr ''tx_a'')],
       ConsumerPass, PutBy InitialLoad [(''_id'', PStr ''block_0_1'')], ConsumerPass, ConsumerPass])
     = [(InitialLoad, [(''_id'', PStr ''block_0_0'')]), (LiveUpdates, [(''_id'', PStr ''tx_a'')]),
        (InitialLoad, [(''_id'', PStr ''block_0_1'')])]"
  using per_source_order_preserved [of InitialLoad
      "[PutBy InitialLoad [(''_id'', PStr ''block_0_0'')], PutBy LiveUpdates [(''_id'', PStr ''tx_a'')],
       ConsumerPass, PutBy InitialLoad [(''_id'', PStr ''block_0_1'')], ConsumerPass, ConsumerPass]"]
  by (simp add: run_schedule_def pipeline_step_def queue_put_def queue_get_def docs_of_def puts_of_def)





text \<open>
  Claim C8. In a run of \<open>start\<close> followed by the task it creates, the events are those
  of the initial load, then the creation of the task, then the events of the live-update
  loop; and the queue holds what the load enqueued, followed by what the loop enqueued.
  When both fetches succeed and the load finishes, the load has enqueued the rows of all
  snapshot blocks, then the rows of all pending transactions.
\<close>

theorem load_precedes_streaming:
  "trace (start_then_stream conn atts st) =
     trace (snd (load_initial_state conn st)) @ TaskCreated # trace (stream_updates atts (fresh st))
   \<and> queue (start_then_stream conn atts st) =
     queue (snd (load_initial_state conn st)) @ queue (stream_updates atts (fresh st))
   \<and> (get_blocks conn = Inr blocks \<and> get_transactions conn = Inr txs
        \<and> load_body conn st = (None, st')
      \<longrightarrow> queue st' = queue st @ map block_row blocks @ map transaction_row txs)"
proof -
  let ?l = "snd (load_initial_state conn st)"
  have run: "start_then_stream conn atts st = stream_updates atts (emit TaskCreated ?l)"
    by (simp add: start_then_stream_def start_eq)
  have "stop_event ?l = stop_event st"
    using load_body_grows [of st conn] by (simp add: load_initial_state_sel)
  then have fr: "fresh (emit TaskCreated ?l) = fresh st"
    by (simp add: fresh_def emit_def)
  have "stream_updates atts (emit TaskCreated ?l) =
        rebase (queue ?l) (trace ?l @ [TaskCreated]) (stream_updates atts (fresh st))"
    using stream_updates_frame [of atts "emit TaskCreated ?l"] by (simp add: fr)
  with run have a: "trace (start_then_stream conn atts st) =
       trace ?l @ TaskCreated # trace (stream_updates atts (fresh st))"
    and b: "queue (start_then_stream conn atts st) =
       queue ?l @ queue (stream_updates atts (fresh st))"
    by simp_all
  have c: "get_blocks conn = Inr blocks \<and> get_transactions conn = Inr txs
        \<and> load_body conn st = (None, st')
      \<longrightarrow> queue st' = queue st @ map block_row blocks @ map transaction_row txs"
  proof (intro impI, elim conjE)
    assume gb: "get_blocks conn = Inr blocks" and gt: "get_transactions conn = Inr txs"
      and lb: "load_body conn st = (None, st')"
    obtain r1 st1 where p1: "for_each process_block blocks st = (r1, st1)"
      by (cases "for_each process_block blocks st")
    with gb gt lb have r1: "r1 = None" by (cases r1) (simp_all add: load_body_def)
    obtain r2 st2 where p2: "for_each process_transaction txs st1 = (r2, st2)"
      by (cases "for_each process_transaction txs st1")
    with gb gt lb p1 r1 have r2: "r2 = None" and st': "st' = emit (LogInfo (length blocks) (length txs)) st2"
      by (cases r2; simp add: load_body_def)+
    from for_each_process_block_None [of blocks st st1] p1 r1
    have "queue st1 = queue st @ map block_row blocks" by simp
    moreover from for_each_process_transaction_None [of txs st1 st2] p2 r2
    have "queue st2 = queue st1 @ map transaction_row txs" by simp
    ultimately show "queue st' = queue st @ map block_row blocks @ map transaction_row txs"
      by (simp add: st')
  qed
  from a b c show ?thesis by blast
qed

theorem load_precedes_streaming_witness:
  "queue (start_then_stream
      \<lparr>get_blocks = Inr [PDict [(''X'', PInt 1)]],
       get_transactions = Inr [PDict [(''ID'', PStr ''a'')]]\<rparr>
      [\<lparr>updates = [PDict [(''type'', PStr ''newTransaction''),
                           (''data'', PDict [(''ID'', PStr ''b'')])]],
        outcome = Raised (OtherException ''closed''), stop_requested = True\<rparr>] init_state)
   = [block_row (PDict [(''X'', PInt 1)]), transaction_row (PDict [(''ID'', PStr ''a'')]),
      transaction_row (PDict [(''ID'', PStr ''b'')])]"
proof -
  let ?conn = "\<lparr>get_blocks = Inr [PDict [(''X'', PInt 1)]],
       get_transactions = Inr [PDict [(''ID'', PStr ''a'')]]\<rparr>"
  let ?st' = "emit (LogInfo 1 1) (put (transaction_row (PDict [(''ID'', PStr ''a'')]))
                (put (block_row (PDict [(''X'', PInt 1)])) init_state))"
  have h: "get_blocks ?conn = Inr [PDict [(''X'', PInt 1)]]
     \<and> get_transactions ?conn = Inr [PDict [(''ID'', PStr ''a'')]]
     \<and> load_body ?conn init_state = (None, ?st')"
    by (simp add: load_body_def normalize_block_eq normalize_transaction_eq block_row_def
          transaction_row_def dict_of_def dict_get_def)
  have live: "queue (stream_updates
        [\<lparr>updates = [PDict [(''type'', PStr ''newTransaction''),
                           (''data'', PDict [(''ID'', PStr ''b'')])]],
        outcome = Raised (OtherException ''closed''), stop_requested = True\<rparr>] (fresh init_state))
      = [transaction_row (PDict [(''ID'', PStr ''b'')])]"
    by (simp add: attempt_once_def handle_update_def dict_item_def normalize_transaction_eq
          transaction_row_def dict_of_def init_state_def)
  show ?thesis
    using load_precedes_streaming
      [of ?conn "[\<lparr>updates = [PDict [(''type'', PStr ''newTransaction''),
                           (''data'', PDict [(''ID'', PStr ''b'')])]],
        outcome = Raised (OtherException ''closed''), stop_requested = True\<rparr>]" init_state
        "[PDict [(''X'', PInt 1)]]" "[PDict [(''ID'', PStr ''a'')]]" ?st'] h live
    by (simp add: load_initial_state_def init_state_def)
qed

text \<open>
  Claim C10. \<open>_load_initial_state\<close> and \<open>start\<close> return normally whatever the fetches
  do; \<open>start\<close> then creates the streaming task. The queue after \<open>start\<close> is the queue
  as the body of the \<open>try\<close> left it, which extends the queue before the call: nothing is
  rolled back. In particular, when the blocks were fetched and enqueued and listing the
  pending transactions raises \<open>e\<close>, the state after \<open>start\<close> is the state after the
  blocks, with the error logged and the task created.
\<close>

theorem load_failure_is_contained:
  "fst (load_initial_state conn st) = None
   \<and> fst (start conn st) = None
   \<and> trace (snd (start conn st)) = trace (snd (load_initial_state conn st)) @ [TaskCreated]
   \<and> queue (snd (start conn st)) = queue (snd (load_body conn st))
   \<and> prefix (queue st) (queue (snd (load_body conn st)))
   \<and> (get_blocks conn = Inr blocks \<and> for_each process_block blocks st = (None, st1)
        \<and> get_transactions conn = Inl e
      \<longrightarrow> snd (start conn st) = emit TaskCreated (emit (LogError e) st1)
          \<and> queue st1 = queue st @ map block_row blocks)"
proof -
  have "get_blocks conn = Inr blocks \<and> for_each process_block blocks st = (None, st1)
        \<and> get_transactions conn = Inl e
      \<longrightarrow> snd (start conn st) = emit TaskCreated (emit (LogError e) st1)
          \<and> queue st1 = queue st @ map block_row blocks"
    by (auto simp: start_eq load_initial_state_def load_body_def
          dest: for_each_process_block_None)
  then show ?thesis
    using load_body_grows [of st conn]
    by (simp add: start_eq load_initial_state_sel)
qed


theorem load_failure_is_contained_witness:
  "fst (start \<lparr>get_blocks = Inr [PDict [(''X'', PInt 1), (''Y'', PInt 2)]],
               get_transactions = Inl (OtherException ''connection reset'')\<rparr> init_state) = None
   \<and> queue (snd (start \<lparr>get_blocks = Inr [PDict [(''X'', PInt 1), (''Y'', PInt 2)]],
               get_transactions = Inl (OtherException ''connection reset'')\<rparr> init_state))
       = [block_row (PDict [(''X'', PInt 1), (''Y'', PInt 2)])]
   \<and> trace (snd (start \<lparr>get_blocks = Inr [PDict [(''X'', PInt 1), (''Y'', PInt 2)]],
               get_transactions = Inl (OtherException ''connection reset'')\<rparr> init_state))
       = [Enqueued (block_row (PDict [(''X'', PInt 1), (''Y'', PInt 2)])),
          LogError (OtherException ''connection reset''), TaskCreated]"
proof -
  have h: "get_blocks \<lparr>get_blocks = Inr [PDict [(''X'', PInt 1), (''Y'', PInt 2)]],
               get_transactions = Inl (OtherException ''connection reset'')\<rparr>
             = Inr [PDict [(''X'', PInt 1), (''Y'', PInt 2)]]
     \<and> for_each process_block [PDict [(''X'', PInt 1), (''Y'', PInt 2)]] init_state
         = (None, put (block_row (PDict [(''X'', PInt 1), (''Y'', PInt 2)])) init_state)
     \<and> get_transactions \<lparr>get_blocks = Inr [PDict [(''X'', PInt 1), (''Y'', PInt 2)]],
               get_transactions = Inl (OtherException ''connection reset'')\<rparr>
             = Inl (OtherException ''connection reset'')"
    by (simp add: normalize_block_eq block_row_def dict_of_def dict_get_def)
  show ?thesis
    using load_failure_is_contained
      [of "\<lparr>get_blocks = Inr [PDict [(''X'', PInt 1), (''Y'', PInt 2)]],
               get_transactions = Inl (OtherException ''connection reset'')\<rparr>" init_state
          "[PDict [(''X'', PInt 1), (''Y'', PInt 2)]]"
          "put (block_row (PDict [(''X'', PInt 1), (''Y'', PInt 2)])) init_state"
          "OtherException ''connection reset''"] h
    by (simp add: init_state_def)
qed


end
